theory Spec2Isabelle
  imports Main "HOL-Library.Word" "HOL-Library.Sublist"
begin

section \<open>JavaScript strings\<close>

text \<open>
  A JavaScript string is a sequence of UTF-16 code units; \<open>length\<close>, indexing and the
  regular expressions of the source (none of which carries the \<open>u\<close> flag) all work on
  code units. A string is therefore a list of 16-bit words. \<open>js\<close> turns an ASCII
  literal into such a list.
\<close>

type_synonym unit16 = "16 word"
type_synonym jsstring = "unit16 list"

definition js :: "string \<Rightarrow> jsstring" where
  "js s = map (\<lambda>c. of_nat (of_char c)) s"

definition newline :: unit16 where
  "newline = 0x0A"

text \<open>The class \<open>\d\<close> without the \<open>u\<close> flag: the ten ASCII digits.\<close>

definition is_digit :: "unit16 \<Rightarrow> bool" where
  "is_digit c \<longleftrightarrow> 0x30 \<le> c \<and> c \<le> 0x39"

text \<open>
  The class \<open>\s\<close>: the WhiteSpace and LineTerminator code points of ECMAScript
  (TAB, LF, VT, FF, CR, SP, NBSP, U+1680, U+2000..U+200A, U+2028, U+2029, U+202F,
  U+205F, U+3000, U+FEFF). All of them are single code units.
\<close>

definition is_space :: "unit16 \<Rightarrow> bool" where
  "is_space c \<longleftrightarrow>
     c = 0x09 \<or> c = 0x0A \<or> c = 0x0B \<or> c = 0x0C \<or> c = 0x0D \<or> c = 0x20 \<or> c = 0xA0 \<or>
     c = 0x1680 \<or> (0x2000 \<le> c \<and> c \<le> 0x200A) \<or> c = 0x2028 \<or> c = 0x2029 \<or>
     c = 0x202F \<or> c = 0x205F \<or> c = 0x3000 \<or> c = 0xFEFF"

text \<open>
  \<open>const delimiters = /[\s\{\}\[\]\(\),:"]/\<close>, tested against a one-character
  string: the character is white space or one of \<open>{ } [ ] ( ) , : "\<close>.
\<close>

definition delimiters :: "unit16 \<Rightarrow> bool" where
  "delimiters c \<longleftrightarrow>
     is_space c \<or> c = 0x7B \<or> c = 0x7D \<or> c = 0x5B \<or> c = 0x5D \<or> c = 0x28 \<or> c = 0x29 \<or>
     c = 0x2C \<or> c = 0x3A \<or> c = 0x22"

text \<open>\<open>s.includes(sub)\<close>: \<open>sub\<close> occurs in \<open>s\<close> as a contiguous substring.\<close>

fun js_includes :: "jsstring \<Rightarrow> jsstring \<Rightarrow> bool" where
  "js_includes [] sub = (sub = [])"
| "js_includes (c # cs) sub = (prefix sub (c # cs) \<or> js_includes cs sub)"

text \<open>
  \<open>s.lastIndexOf(c)\<close> for a one-character search string: the greatest index holding
  \<open>c\<close>, or \<open>-1\<close> when there is none.
\<close>

definition lastIndexOf :: "jsstring \<Rightarrow> unit16 \<Rightarrow> int" where
  "lastIndexOf s c =
     (if c \<in> set s then int (length s) - 1 - int (length (takeWhile (\<lambda>x. x \<noteq> c) (rev s)))
      else -1)"

section \<open>Extracting the position from the message\<close>

text \<open>
  \<open>errorMessage.match(/at position (\d+)/)\<close>: the leftmost place where the literal
  \<open>at position \<close> is followed by at least one digit; the capture group is the longest
  run of digits there (the quantifier is greedy). The result is the captured digit
  string, or \<open>None\<close> for JavaScript's \<open>null\<close>.
\<close>

definition at_position :: jsstring where
  "at_position = js ''at position ''"

fun positionMatch :: "jsstring \<Rightarrow> jsstring option" where
  "positionMatch [] = None"
| "positionMatch (c # cs) =
     (if prefix at_position (c # cs) \<and>
         takeWhile is_digit (drop (length at_position) (c # cs)) \<noteq> []
      then Some (takeWhile is_digit (drop (length at_position) (c # cs)))
      else positionMatch cs)"

text \<open>
  \<open>parseInt(digits, 10)\<close> on a non-empty string of ASCII digits. JavaScript rounds
  the value to a double; the source only compares it with \<open>text.length\<close> (which is
  below \<open>2^53\<close>) and uses it when it is at most \<open>text.length\<close>, where the double is
  exact, and a value above \<open>text.length\<close> stays above it after rounding. So the exact
  natural number gives the same behaviour.
\<close>

definition parseInt :: "jsstring \<Rightarrow> nat" where
  "parseInt ds = foldl (\<lambda>n c. 10 * n + (unat c - 48)) 0 ds"

section \<open>calculateErrorRange (src/App.tsx)\<close>

record span =
  start :: nat
  end' :: nat

definition unexpected_end :: jsstring where
  "unexpected_end = js ''Unexpected end of JSON input''"

text \<open>\<open>while (start > 0 && !delimiters.test(text[start - 1])) start--\<close>\<close>

function expand_start :: "jsstring \<Rightarrow> nat \<Rightarrow> nat" where
  "expand_start text s =
     (if s > 0 \<and> \<not> delimiters (text ! (s - 1))
      then expand_start text (s - 1) else s)"
  by pat_completeness auto
termination
  by (relation "measure (\<lambda>(text, s). s)") auto

text \<open>\<open>while (end < text.length && !delimiters.test(text[end])) end++\<close>\<close>

function expand_end :: "jsstring \<Rightarrow> nat \<Rightarrow> nat" where
  "expand_end text e =
     (if e < length text \<and> \<not> delimiters (text ! e)
      then expand_end text (e + 1) else e)"
  by pat_completeness auto
termination
  by (relation "measure (\<lambda>(text, e). length text - e)") auto

declare expand_start.simps [simp del]
declare expand_end.simps [simp del]

text \<open>
  The function itself. \<open>None\<close> is \<open>null\<close>. The test \<open>!positionMatch[1]\<close> never fires
  (the group holds at least one digit, and a non-empty string is truthy), and
  \<open>position < 0\<close> never holds for a digit string; both are kept out of the model.
\<close>

definition calculateErrorRange :: "jsstring \<Rightarrow> jsstring \<Rightarrow> span option" where
  "calculateErrorRange text errorMessage =
     (case positionMatch errorMessage of
        None \<Rightarrow> None
      | Some digits \<Rightarrow>
          let position = parseInt digits in
          if position > length text then None
          else if js_includes errorMessage unexpected_end then
            let lastNewLine = lastIndexOf text newline in
            Some \<lparr>start = (if lastNewLine > -1 then nat (lastNewLine + 1) else 0),
                  end' = length text\<rparr>
          else if position < length text \<and> delimiters (text ! position) then
            Some \<lparr>start = position, end' = position + 1\<rparr>
          else
            let s = expand_start text position;
                e = expand_end text position in
            if s = e \<and> e < length text then
              Some \<lparr>start = position, end' = position + 1\<rparr>
            else Some \<lparr>start = s, end' = e\<rparr>)"

text \<open>
  The position the function works with: the capture group read as a decimal number.
\<close>

definition extracted_position :: "jsstring \<Rightarrow> nat option" where
  "extracted_position errorMessage = map_option parseInt (positionMatch errorMessage)"

section \<open>getLineAndColumn (src/components/ErrorMessage.tsx)\<close>

record line_column =
  line :: int
  column :: int

text \<open>
  The \<open>for\<close> loop, with its three variables \<open>i\<close>, \<open>line\<close> and \<open>lastLineStart\<close>.
  Every read \<open>text[i]\<close> has \<open>i < position \<le> text.length\<close>.
\<close>

function scan_lines :: "jsstring \<Rightarrow> nat \<Rightarrow> nat \<Rightarrow> int \<Rightarrow> nat \<Rightarrow> int \<times> nat" where
  "scan_lines text position i ln lastLineStart =
     (if i < position then
        (if text ! i = newline
         then scan_lines text position (i + 1) (ln + 1) (i + 1)
         else scan_lines text position (i + 1) ln lastLineStart)
      else (ln, lastLineStart))"
  by pat_completeness auto
termination
  by (relation "measure (\<lambda>(text, position, i, ln, lastLineStart). position - i)") auto

declare scan_lines.simps [simp del]

definition getLineAndColumn :: "jsstring \<Rightarrow> nat \<Rightarrow> line_column option" where
  "getLineAndColumn text position =
     (if position > length text then None
      else
        let (ln, lastLineStart) = scan_lines text position 0 1 0 in
        Some \<lparr>line = ln, column = int position - int lastLineStart + 1\<rparr>)"

text \<open>
  Two notions the statements about \<open>getLineAndColumn\<close> use: the indices in
  \<open>[i, o)\<close> that hold a line feed, and the index just after the last line feed
  before \<open>o\<close> (\<open>0\<close> when there is none).
\<close>

definition newlines_in :: "jsstring \<Rightarrow> nat \<Rightarrow> nat \<Rightarrow> nat set" where
  "newlines_in T i o' = {j. i \<le> j \<and> j < o' \<and> T ! j = newline}"

definition line_start :: "jsstring \<Rightarrow> nat \<Rightarrow> nat" where
  "line_start T o' = (if newlines_in T 0 o' = {} then 0 else Max (newlines_in T 0 o') + 1)"

section \<open>Parsed values\<close>

text \<open>
  The value \<open>JSON.parse\<close> returns: \<open>null\<close>, a boolean, a number, a string, an array or a
  plain object. The type of numbers is a parameter, since nothing below looks into a
  number. An object is the list of its own properties in the order in which they were
  created; \<open>JSON.parse\<close> creates them in the order in which the keys first appear in the
  text, so this is the insertion order of the input. The keys of an object are distinct.
\<close>

datatype 'n json =
    JNull
  | JBoolean bool
  | JNumber 'n
  | JString jsstring
  | JArray "'n json list"
  | JObject "(jsstring \<times> 'n json) list"

text \<open>
  \<open>Object.keys(nodeData)\<close>. ECMAScript lists the own keys of an ordinary object
  (OrdinaryOwnPropertyKeys) as follows: first the keys that are array indices, in
  ascending numeric order, then the other string keys in the order of their creation.
  A key is an array index when it is the canonical decimal form of an integer below
  \<open>2^32 - 1 = 4294967295\<close>: digits only, and no leading zero unless the key is \<open>0\<close> itself.
\<close>

definition numeric_value :: "jsstring \<Rightarrow> int" where
  "numeric_value k = foldl (\<lambda>n c. 10 * n + (uint c - 48)) 0 k"

definition is_array_index :: "jsstring \<Rightarrow> bool" where
  "is_array_index k \<longleftrightarrow>
     k \<noteq> [] \<and> list_all is_digit k \<and> (hd k \<noteq> 0x30 \<or> length k = 1) \<and>
     numeric_value k < 4294967295"

definition object_keys :: "(jsstring \<times> 'a) list \<Rightarrow> jsstring list" where
  "object_keys props =
     sort_key numeric_value (filter is_array_index (map fst props)) @
     filter (\<lambda>k. \<not> is_array_index k) (map fst props)"

section \<open>The rendered tree\<close>

text \<open>
  What \<open>JsonNode\<close> returns, with the styling left out. A collapsed and an expanded
  container both carry the click handler \<open>toggleCollapse\<close>; the other nodes do not. The
  flag of \<open>VEmpty\<close>, \<open>VCollapsed\<close> and \<open>VExpanded\<close> is \<open>isArray\<close>, which selects the
  brackets (\<open>[ ]\<close> or \<open>{ }\<close>) and the word \<open>items\<close> or \<open>keys\<close>. A row of an expanded
  container is one \<open>div\<close>: for an object the key, displayed between double quotes and
  followed by a colon, then the child, then a comma when \<open>row_comma\<close> holds.
  \<open>VNothing\<close> is the \<open>default: return null\<close> of the \<open>switch\<close>.
\<close>

datatype 'v row =
  Row (row_key: "jsstring option") (row_child: 'v) (row_comma: bool)

datatype 'n view =
    VNull
  | VString jsstring
  | VNumber 'n
  | VBoolean bool
  | VEmpty bool
  | VCollapsed bool nat
  | VExpanded bool "'n view row list"
  | VNothing

fun collapsible :: "'n view \<Rightarrow> bool" where
  "collapsible (VCollapsed isArray itemCount) = True"
| "collapsible (VExpanded isArray rows) = True"
| "collapsible v = False"

fun collapsed :: "'n view \<Rightarrow> bool" where
  "collapsed (VCollapsed isArray itemCount) = True"
| "collapsed v = False"

section \<open>The collapse state\<close>

text \<open>
  \<open>useState(indentLevel > 0)\<close> gives every mounted \<open>JsonNode\<close> instance a cell of its
  own. React identifies the instance by its place in the tree, creates the cell with the
  initial value when the instance is mounted, and discards it when the instance is
  unmounted. The cells of a subtree are a partial map from paths (the row numbers from
  the root of the subtree down to the instance) to flags. A path without a cell belongs
  to an instance that is not mounted or whose cell still holds its initial value; in
  both cases the flag to read is the initial value \<open>indentLevel > 0\<close>.
\<close>

type_synonym cells = "nat list \<Rightarrow> bool option"

definition isCollapsed :: "cells \<Rightarrow> nat \<Rightarrow> bool" where
  "isCollapsed st indentLevel = (case st [] of Some b \<Rightarrow> b | None \<Rightarrow> indentLevel > 0)"

definition child_cells :: "nat \<Rightarrow> cells \<Rightarrow> cells" where
  "child_cells i st = (\<lambda>p. st (i # p))"

definition subtree_cells :: "nat list \<Rightarrow> cells \<Rightarrow> cells" where
  "subtree_cells p st = (\<lambda>q. st (p @ q))"

section \<open>JsonNode (the tree viewer component)\<close>

text \<open>
  The component, as a function of its two props and the cells of its subtree. The
  children of an array are rendered by \<open>nodeData.map\<close> in index order, those of an
  object by \<open>keys.map\<close> in the order of \<open>Object.keys\<close>, each with the value
  \<open>nodeData[key]\<close>; the comma follows every row but the last. A collapsed container
  renders no child.
\<close>

function JsonNode :: "'n json \<Rightarrow> nat \<Rightarrow> cells \<Rightarrow> 'n view" where
  "JsonNode JNull indentLevel st = VNull"
| "JsonNode (JString s) indentLevel st = VString s"
| "JsonNode (JNumber n) indentLevel st = VNumber n"
| "JsonNode (JBoolean b) indentLevel st = VBoolean b"
| "JsonNode (JArray items) indentLevel st =
     (if length items = 0 then VEmpty True
      else if isCollapsed st indentLevel then VCollapsed True (length items)
      else VExpanded True
        (map (\<lambda>index.
                Row None
                  (JsonNode (items ! index) (indentLevel + 1) (child_cells index st))
                  (index < length items - 1))
           [0..<length items]))"
| "JsonNode (JObject props) indentLevel st =
     (if length (object_keys props) = 0 then VEmpty False
      else if isCollapsed st indentLevel then VCollapsed False (length (object_keys props))
      else VExpanded False
        (map (\<lambda>index.
                Row (Some (object_keys props ! index))
                  (case map_of props (object_keys props ! index) of
                     Some v \<Rightarrow> JsonNode v (indentLevel + 1) (child_cells index st)
                   | None \<Rightarrow> VNothing)
                  (index < length (object_keys props) - 1))
           [0..<length (object_keys props)]))"
  by pat_completeness auto
termination
proof (relation "measure (\<lambda>(v, indentLevel, st). size v)")
  show "wf (measure (\<lambda>(v, indentLevel, st). size v))" by simp
next
  fix items :: "'n json list" and indentLevel :: nat and st :: cells and index :: nat
  assume "index \<in> set [0..<length items]"
  then have "items ! index \<in> set items" by simp
  then have "size (items ! index) \<le> size_list size items" by (rule size_list_estimation') simp
  then show "((items ! index, indentLevel + 1, child_cells index st), JArray items, indentLevel, st)
      \<in> measure (\<lambda>(v, indentLevel, st). size v)" by simp
next
  fix props :: "(jsstring \<times> 'n json) list" and indentLevel :: nat and st :: cells
    and index :: nat and v :: "'n json"
  assume "map_of props (object_keys props ! index) = Some v"
  then have "(object_keys props ! index, v) \<in> set props" by (rule map_of_SomeD)
  then have "size_prod (\<lambda>_. 0) size (object_keys props ! index, v)
      \<le> size_list (size_prod (\<lambda>_. 0) size) props"
    by (rule size_list_estimation') simp
  then show "((v, indentLevel + 1, child_cells index st), JObject props, indentLevel, st)
      \<in> measure (\<lambda>(v, indentLevel, st). size v)" by simp
qed

declare JsonNode.simps [simp del]

text \<open>
  \<open>toggleCollapse\<close>, the click on the node at path \<open>p\<close> below a node of depth
  \<open>indentLevel\<close>: \<open>setIsCollapsed(prev => !prev)\<close> negates the flag of that instance.
  When the node becomes collapsed its children are no longer rendered, so React unmounts
  them and discards their cells; when it becomes expanded its children are mounted
  afresh. Either way no cell is left below the node, and the descendants read their
  initial value at the next render. The cells outside the subtree are untouched.
\<close>

primrec toggleCollapse :: "nat list \<Rightarrow> nat \<Rightarrow> cells \<Rightarrow> cells" where
  "toggleCollapse [] indentLevel st =
     (\<lambda>q. if q = [] then Some (\<not> isCollapsed st indentLevel) else None)"
| "toggleCollapse (i # p) indentLevel st =
     (\<lambda>q. case q of
             [] \<Rightarrow> st []
           | j # q' \<Rightarrow>
               if j = i then toggleCollapse p (indentLevel + 1) (child_cells i st) q'
               else st q)"

text \<open>\<open>JsonViewer\<close> renders the root with \<open>indentLevel = 0\<close>.\<close>

definition JsonViewer :: "'n json \<Rightarrow> cells \<Rightarrow> 'n view" where
  "JsonViewer data st = JsonNode data 0 st"

text \<open>The state of a freshly mounted viewer: no cell has been changed yet.\<close>

definition initial_cells :: cells where
  "initial_cells = (\<lambda>p. None)"

section \<open>Facts about the two expansion loops\<close>

lemma expand_start_step:
  "s > 0 \<Longrightarrow> \<not> delimiters (t ! (s - 1)) \<Longrightarrow> expand_start t s = expand_start t (s - 1)"
  by (subst expand_start.simps) simp

lemma expand_start_halt:
  "\<not> (s > 0 \<and> \<not> delimiters (t ! (s - 1))) \<Longrightarrow> expand_start t s = s"
  by (subst expand_start.simps) auto

lemma expand_end_step:
  "e < length t \<Longrightarrow> \<not> delimiters (t ! e) \<Longrightarrow> expand_end t e = expand_end t (e + 1)"
  by (subst expand_end.simps) simp

lemma expand_end_halt:
  "\<not> (e < length t \<and> \<not> delimiters (t ! e)) \<Longrightarrow> expand_end t e = e"
  by (subst expand_end.simps) auto

lemma expand_start_le: "expand_start T p \<le> p"
proof (induction T p rule: expand_start.induct)
  case (1 t s)
  show ?case
  proof (cases "s > 0 \<and> \<not> delimiters (t ! (s - 1))")
    case True
    with "1.IH" show ?thesis by (simp add: expand_start_step)
  next
    case False
    then have "expand_start t s = s" by (rule expand_start_halt)
    then show ?thesis by simp
  qed
qed

lemma expand_start_run: "expand_start T p \<le> i \<Longrightarrow> i < p \<Longrightarrow> \<not> delimiters (T ! i)"
proof (induction T p rule: expand_start.induct)
  case (1 t s)
  show ?case
  proof (cases "s > 0 \<and> \<not> delimiters (t ! (s - 1))")
    case True
    then have eq: "expand_start t s = expand_start t (s - 1)"
      by (simp add: expand_start_step)
    show ?thesis
    proof (cases "i = s - 1")
      case True
      with \<open>s > 0 \<and> \<not> delimiters (t ! (s - 1))\<close> show ?thesis by simp
    next
      case False
      with "1.prems" have "i < s - 1" by arith
      with "1.IH" [OF True] "1.prems" eq show ?thesis by simp
    qed
  next
    case False
    then have "expand_start t s = s"
      by (rule expand_start_halt)
    with "1.prems" show ?thesis by simp
  qed
qed

lemma expand_start_stop:
  "expand_start T p = 0 \<or> delimiters (T ! (expand_start T p - 1))"
proof (induction T p rule: expand_start.induct)
  case (1 t s)
  show ?case
  proof (cases "s > 0 \<and> \<not> delimiters (t ! (s - 1))")
    case True
    with "1.IH" show ?thesis by (simp add: expand_start_step)
  next
    case False
    then have "expand_start t s = s"
      by (rule expand_start_halt)
    with False show ?thesis by auto
  qed
qed

lemma expand_end_ge: "p \<le> expand_end T p"
proof (induction T p rule: expand_end.induct)
  case (1 t e)
  show ?case
  proof (cases "e < length t \<and> \<not> delimiters (t ! e)")
    case True
    with "1.IH" show ?thesis by (simp add: expand_end_step)
  next
    case False
    then have "expand_end t e = e" by (rule expand_end_halt)
    then show ?thesis by simp
  qed
qed

lemma expand_end_le: "p \<le> length T \<Longrightarrow> expand_end T p \<le> length T"
proof (induction T p rule: expand_end.induct)
  case (1 t e)
  show ?case
  proof (cases "e < length t \<and> \<not> delimiters (t ! e)")
    case True
    with "1.IH" show ?thesis by (simp add: expand_end_step)
  next
    case False
    then have "expand_end t e = e" by (rule expand_end_halt)
    with "1.prems" show ?thesis by simp
  qed
qed

lemma expand_end_run: "p \<le> i \<Longrightarrow> i < expand_end T p \<Longrightarrow> \<not> delimiters (T ! i)"
proof (induction T p rule: expand_end.induct)
  case (1 t e)
  show ?case
  proof (cases "e < length t \<and> \<not> delimiters (t ! e)")
    case True
    then have eq: "expand_end t e = expand_end t (e + 1)"
      by (simp add: expand_end_step)
    show ?thesis
    proof (cases "i = e")
      case True
      with \<open>e < length t \<and> \<not> delimiters (t ! e)\<close> show ?thesis by simp
    next
      case False
      with "1.prems" have "e + 1 \<le> i" by arith
      with "1.IH" [OF True] "1.prems" eq show ?thesis by simp
    qed
  next
    case False
    then have "expand_end t e = e"
      by (rule expand_end_halt)
    with "1.prems" show ?thesis by simp
  qed
qed

lemma expand_end_stop:
  "length T \<le> expand_end T p \<or> delimiters (T ! expand_end T p)"
proof (induction T p rule: expand_end.induct)
  case (1 t e)
  show ?case
  proof (cases "e < length t \<and> \<not> delimiters (t ! e)")
    case True
    with "1.IH" show ?thesis by (simp add: expand_end_step)
  next
    case False
    then have "expand_end t e = e"
      by (rule expand_end_halt)
    with False show ?thesis by auto
  qed
qed

lemma takeWhile_shorter: "\<exists>x\<in>set xs. \<not> P x \<Longrightarrow> length (takeWhile P xs) < length xs"
  by (induction xs) auto

lemma lastIndexOf_bounds: "- 1 \<le> lastIndexOf s c \<and> lastIndexOf s c < int (length s)"
proof (cases "c \<in> set s")
  case True
  then have "\<exists>x\<in>set (rev s). \<not> x \<noteq> c" by simp
  then have "length (takeWhile (\<lambda>x. x \<noteq> c) (rev s)) < length (rev s)"
    by (rule takeWhile_shorter)
  with True show ?thesis by (simp add: lastIndexOf_def)
next
  case False
  then show ?thesis by (simp add: lastIndexOf_def)
qed

section \<open>The branches of calculateErrorRange\<close>

lemma calc_None_iff:
  "calculateErrorRange T M = None \<longleftrightarrow>
     (case extracted_position M of None \<Rightarrow> True | Some p \<Rightarrow> length T < p)"
  by (cases "positionMatch M")
     (simp_all add: calculateErrorRange_def extracted_position_def Let_def)

lemma calc_unexpected_end:
  assumes "extracted_position M = Some p" and "p \<le> length T"
    and "js_includes M unexpected_end"
  shows "calculateErrorRange T M =
     Some \<lparr>start = (if lastIndexOf T newline > -1 then nat (lastIndexOf T newline + 1) else 0),
           end' = length T\<rparr>"
  using assms by (auto simp: calculateErrorRange_def extracted_position_def Let_def)

lemma calc_delimiter:
  assumes "extracted_position M = Some p" and "p < length T"
    and "\<not> js_includes M unexpected_end" and "delimiters (T ! p)"
  shows "calculateErrorRange T M = Some \<lparr>start = p, end' = p + 1\<rparr>"
  using assms by (auto simp: calculateErrorRange_def extracted_position_def Let_def)

lemma no_fallback:
  assumes "p < length T \<longrightarrow> \<not> delimiters (T ! p)"
  shows "\<not> (expand_start T p = expand_end T p \<and> expand_end T p < length T)"
proof
  assume a: "expand_start T p = expand_end T p \<and> expand_end T p < length T"
  have "expand_start T p \<le> p" and "p \<le> expand_end T p"
    by (rule expand_start_le, rule expand_end_ge)
  with a have e: "expand_end T p = p" by simp
  with a have "p < length T" by simp
  moreover from expand_end_stop [of T p] a e have "delimiters (T ! p)" by simp
  ultimately show False using assms by simp
qed

lemma calc_token:
  assumes "extracted_position M = Some p" and "p \<le> length T"
    and "\<not> js_includes M unexpected_end" and "p < length T \<longrightarrow> \<not> delimiters (T ! p)"
  shows "calculateErrorRange T M = Some \<lparr>start = expand_start T p, end' = expand_end T p\<rparr>"
  using assms no_fallback [OF assms(4)]
  by (auto simp: calculateErrorRange_def extracted_position_def Let_def)

lemma expand_start_least:
  assumes "s' \<le> p" and run: "\<forall>i. s' \<le> i \<and> i < p \<longrightarrow> \<not> delimiters (T ! i)"
  shows "expand_start T p \<le> s'"
proof (rule ccontr)
  assume "\<not> expand_start T p \<le> s'"
  then have lt: "s' < expand_start T p" by simp
  with expand_start_stop [of T p] have d: "delimiters (T ! (expand_start T p - 1))" by auto
  from lt expand_start_le [of T p] have "s' \<le> expand_start T p - 1 \<and> expand_start T p - 1 < p"
    by arith
  with run d show False by blast
qed

lemma expand_end_greatest:
  assumes "p \<le> e'" and "e' \<le> length T"
    and run: "\<forall>i. p \<le> i \<and> i < e' \<longrightarrow> \<not> delimiters (T ! i)"
  shows "e' \<le> expand_end T p"
proof (rule ccontr)
  assume "\<not> e' \<le> expand_end T p"
  then have lt: "expand_end T p < e'" by simp
  with assms(2) expand_end_stop [of T p] have d: "delimiters (T ! expand_end T p)" by auto
  from lt expand_end_ge [of p T] have "p \<le> expand_end T p \<and> expand_end T p < e'" by simp
  with run d show False by blast
qed

section \<open>Facts about the line scan\<close>

lemma finite_newlines_in [simp]: "finite (newlines_in T i o')"
  by (simp add: newlines_in_def)

lemma newlines_in_empty [simp]: "o' \<le> i \<Longrightarrow> newlines_in T i o' = {}"
  by (auto simp: newlines_in_def)

lemma newlines_in_step:
  "i < o' \<Longrightarrow> newlines_in T i o' =
     (if T ! i = newline then insert i (newlines_in T (Suc i) o') else newlines_in T (Suc i) o')"
  by (auto simp: newlines_in_def Suc_le_eq le_less)

lemma newlines_in_lower: "j \<in> newlines_in T i o' \<Longrightarrow> i \<le> j"
  by (simp add: newlines_in_def)

lemma scan_lines_step:
  "i < position \<Longrightarrow> scan_lines t position i ln s =
     (if t ! i = newline then scan_lines t position (i + 1) (ln + 1) (i + 1)
      else scan_lines t position (i + 1) ln s)"
  by (subst scan_lines.simps) simp

lemma scan_lines_halt: "\<not> i < position \<Longrightarrow> scan_lines t position i ln s = (ln, s)"
  by (subst scan_lines.simps) simp

lemma scan_lines_inv:
  "i \<le> position \<Longrightarrow>
   scan_lines T position i ln s =
     (ln + int (card (newlines_in T i position)),
      if newlines_in T i position = {} then s else Max (newlines_in T i position) + 1)"
proof (induction T position i ln s rule: scan_lines.induct)
  case (1 t position i ln s)
  show ?case
  proof (cases "i < position")
    case False
    then show ?thesis by (simp add: scan_lines_halt)
  next
    case lt: True
    let ?S = "newlines_in t (Suc i) position"
    have notin: "i \<notin> ?S" using newlines_in_lower [of i t "Suc i" position] by auto
    show ?thesis
    proof (cases "t ! i = newline")
      case True
      have S: "newlines_in t i position = insert i ?S"
        using lt True by (simp add: newlines_in_step)
      have mx: "Max (insert i ?S) = (if ?S = {} then i else Max ?S)"
      proof (cases "?S = {}")
        case True
        then show ?thesis by simp
      next
        case False
        then have "i \<le> Max ?S"
          using newlines_in_lower [of "Max ?S" t "Suc i" position] Max_in [of ?S] by auto
        with False show ?thesis by (simp add: max_def)
      qed
      from "1.IH"(1) [OF lt True] lt
      have "scan_lines t position (i + 1) (ln + 1) (i + 1) =
              (ln + 1 + int (card ?S), if ?S = {} then i + 1 else Max ?S + 1)"
        by simp
      with lt True S mx notin show ?thesis
        by (simp add: scan_lines_step)
    next
      case False
      have S: "newlines_in t i position = ?S"
        using lt False by (simp add: newlines_in_step)
      from "1.IH"(2) [OF lt False] lt
      have "scan_lines t position (i + 1) ln s =
              (ln + int (card ?S), if ?S = {} then s else Max ?S + 1)"
        by simp
      with lt False S show ?thesis
        by (simp add: scan_lines_step)
    qed
  qed
qed



lemma line_start_le: "line_start T o' \<le> o'"
proof (cases "newlines_in T 0 o' = {}")
  case True
  then show ?thesis by (simp add: line_start_def)
next
  case False
  then have m: "Max (newlines_in T 0 o') \<in> newlines_in T 0 o'" by (intro Max_in) simp_all
  have "j < o'" if "j \<in> newlines_in T 0 o'" for j
    using that by (simp add: newlines_in_def)
  from this [OF m] have "Suc (Max (newlines_in T 0 o')) \<le> o'" by (rule Suc_leI)
  with False show ?thesis by (simp only: line_start_def if_False Suc_eq_plus1)
qed

lemma getLineAndColumn_eq:
  "getLineAndColumn T o' =
     (if length T < o' then None
      else Some \<lparr>line = 1 + int (card (newlines_in T 0 o')),
                 column = int o' - int (line_start T o') + 1\<rparr>)"
  by (simp add: getLineAndColumn_def scan_lines_inv line_start_def)

section \<open>Every returned span is well formed\<close>

lemma calc_well_formed:
  assumes "calculateErrorRange T M = Some r"
  shows "start r \<le> end' r \<and> end' r \<le> length T"
proof -
  from assms obtain p where p: "extracted_position M = Some p" "p \<le> length T"
    using calc_None_iff [of T M] by (cases "extracted_position M") auto
  show ?thesis
  proof (cases "js_includes M unexpected_end")
    case True
    from calc_unexpected_end [OF p True] assms lastIndexOf_bounds [of T newline]
    show ?thesis by auto
  next
    case False
    show ?thesis
    proof (cases "p < length T \<and> delimiters (T ! p)")
      case True
      with calc_delimiter [OF p(1) _ False] assms show ?thesis by auto
    next
      case False
      then have "p < length T \<longrightarrow> \<not> delimiters (T ! p)" by simp
      from calc_token [OF p \<open>\<not> js_includes M unexpected_end\<close> this] assms
        expand_start_le [of T p] expand_end_ge [of p T] expand_end_le [OF p(2)]
      show ?thesis by auto
    qed
  qed
qed

section \<open>Facts about Object.keys and the expanded view\<close>

lemma length_object_keys: "length (object_keys props) = length props"
proof -
  have "length (filter is_array_index (map fst props)) +
        length (filter (\<lambda>k. \<not> is_array_index k) (map fst props)) = length (map fst props)"
    by (rule sum_length_filter_compl)
  then show ?thesis by (simp add: object_keys_def)
qed

lemma set_object_keys: "set (object_keys props) = fst ` set props"
  by (auto simp: object_keys_def)

lemma object_keys_insertion_order:
  assumes "\<forall>k\<in>set (map fst props). \<not> is_array_index k"
  shows "object_keys props = map fst props"
proof -
  from assms have "filter is_array_index (map fst props) = []"
    by (simp add: filter_empty_conv)
  moreover from assms have "filter (\<lambda>k. \<not> is_array_index k) (map fst props) = map fst props"
    by (simp add: filter_id_conv)
  ultimately show ?thesis by (simp add: object_keys_def)
qed

lemma object_keys_lookup:
  assumes "i < length props"
  shows "\<exists>v. map_of props (object_keys props ! i) = Some v"
proof -
  from assms have "object_keys props ! i \<in> set (object_keys props)"
    by (simp add: length_object_keys)
  then have "object_keys props ! i \<in> fst ` set props" by (simp add: set_object_keys)
  then have "map_of props (object_keys props ! i) \<noteq> None"
    by (simp add: map_of_eq_None_iff)
  then show ?thesis by blast
qed

lemma map_of_nth_distinct:
  assumes "distinct (map fst props)" and "i < length props"
  shows "map_of props (fst (props ! i)) = Some (snd (props ! i))"
proof -
  from assms(2) have "(fst (props ! i), snd (props ! i)) \<in> set props" by simp
  with assms(1) show ?thesis by (rule map_of_is_SomeI)
qed

lemma JsonNode_array_expanded:
  assumes "items \<noteq> []" and "\<not> isCollapsed st d"
  shows "JsonNode (JArray items) d st =
     VExpanded True
       (map (\<lambda>index. Row None (JsonNode (items ! index) (d + 1) (child_cells index st))
                         (index < length items - 1)) [0..<length items])"
  using assms by (simp add: JsonNode.simps)

lemma JsonNode_object_expanded:
  assumes "props \<noteq> []" and "\<not> isCollapsed st d"
  shows "JsonNode (JObject props) d st =
     VExpanded False
       (map (\<lambda>index. Row (Some (object_keys props ! index))
                         (case map_of props (object_keys props ! index) of
                            Some v \<Rightarrow> JsonNode v (d + 1) (child_cells index st)
                          | None \<Rightarrow> VNothing)
                         (index < length (object_keys props) - 1))
          [0..<length (object_keys props)])"
  using assms by (simp add: JsonNode.simps length_object_keys)

lemma JsonNode_array_collapsed:
  assumes "items \<noteq> []" and "isCollapsed st d"
  shows "JsonNode (JArray items) d st = VCollapsed True (length items)"
  using assms by (simp add: JsonNode.simps)

lemma JsonNode_object_collapsed:
  assumes "props \<noteq> []" and "isCollapsed st d"
  shows "JsonNode (JObject props) d st = VCollapsed False (length props)"
  using assms by (simp add: JsonNode.simps length_object_keys)



section \<open>Facts about toggling\<close>

lemma child_cells_toggle_Cons:
  "child_cells j (toggleCollapse (i # p) d st) =
     (if j = i then toggleCollapse p (d + 1) (child_cells i st) else child_cells j st)"
  by (rule ext) (simp add: child_cells_def)

lemma isCollapsed_toggle_Cons:
  "isCollapsed (toggleCollapse (i # p) d st) d' = isCollapsed st d'"
  by (simp add: isCollapsed_def)

lemma subtree_cells_Nil: "subtree_cells [] st = st"
  by (simp add: subtree_cells_def)

lemma subtree_cells_Cons: "subtree_cells (i # p) st = subtree_cells p (child_cells i st)"
  by (rule ext) (simp add: subtree_cells_def child_cells_def)

lemma toggle_outside:
  "\<not> prefix p q \<Longrightarrow> toggleCollapse p d st q = st q"
proof (induction p arbitrary: q d st)
  case Nil
  then show ?case by simp
next
  case (Cons i p)
  show ?case
  proof (cases q)
    case Nil
    then show ?thesis by simp
  next
    case (Cons j q')
    show ?thesis
    proof (cases "j = i")
      case True
      with Cons Cons.prems have "\<not> prefix p q'" by simp
      from Cons.IH [OF this] True Cons show ?thesis by (simp add: child_cells_def)
    next
      case False
      with Cons show ?thesis by simp
    qed
  qed
qed

lemma toggle_below:
  "strict_prefix p q \<Longrightarrow> toggleCollapse p d st q = None"
proof (induction p arbitrary: q d st)
  case Nil
  then show ?case by auto
next
  case (Cons i p)
  then obtain q' where q: "q = i # q'" and "strict_prefix p q'"
    by (cases q) (auto simp: strict_prefix_def)
  with Cons.IH show ?case by simp
qed

lemma toggle_own_flag:
  "isCollapsed (subtree_cells p (toggleCollapse p d st)) (d + length p) =
     (\<not> isCollapsed (subtree_cells p st) (d + length p))"
proof (induction p arbitrary: d st)
  case Nil
  then show ?case by (simp add: subtree_cells_Nil isCollapsed_def)
next
  case (Cons i p)
  from Cons.IH [of "d + 1" "child_cells i st"] show ?case
    by (simp add: subtree_cells_Cons child_cells_toggle_Cons del: toggleCollapse.simps)
qed

lemma JsonNode_cong:
  assumes "isCollapsed st1 d = isCollapsed st2 d"
    and "\<And>j (c :: 'n json).
           JsonNode c (Suc d) (child_cells j st1) = JsonNode c (Suc d) (child_cells j st2)"
  shows "JsonNode (v :: 'n json) d st1 = JsonNode v d st2"
proof (cases v)
  case (JArray items)
  with assms(1) show ?thesis by (simp add: JsonNode.simps assms(2))
next
  case (JObject props)
  with assms(1) show ?thesis by (simp add: JsonNode.simps assms(2) split: option.split)
qed (simp_all add: JsonNode.simps)

lemma JsonNode_collapsed_cong:
  assumes "isCollapsed st1 d" and "isCollapsed st2 d"
  shows "JsonNode v d st1 = JsonNode v d st2"
  using assms by (cases v) (simp_all add: JsonNode.simps)


lemma JsonNode_flags_cong:
  fixes v :: "'n json"
  assumes "\<And>r. isCollapsed (subtree_cells r st1) (d + length r) =
                isCollapsed (subtree_cells r st2) (d + length r)"
  shows "JsonNode v d st1 = JsonNode v d st2"
  using assms
proof (induction v d st1 arbitrary: st2 rule: JsonNode.induct)
  case (5 items indentLevel st)
  from "5.prems" [of "[]"] have flag: "isCollapsed st indentLevel = isCollapsed st2 indentLevel"
    by (simp add: subtree_cells_Nil)
  have kids: "isCollapsed (subtree_cells r (child_cells i st)) (indentLevel + 1 + length r) =
      isCollapsed (subtree_cells r (child_cells i st2)) (indentLevel + 1 + length r)" for i r
    using "5.prems" [of "i # r"] by (simp add: subtree_cells_Cons)
  show ?case
  proof (cases "length items = 0 \<or> isCollapsed st indentLevel")
    case True
    with flag show ?thesis by (auto simp: JsonNode.simps)
  next
    case False
    then have a: "\<not> length items = 0" and b: "\<not> isCollapsed st indentLevel" by simp_all
    have "JsonNode (items ! index) (indentLevel + 1) (child_cells index st) =
          JsonNode (items ! index) (indentLevel + 1) (child_cells index st2)"
      if "index \<in> set [0..<length items]" for index
      by (rule "5.IH" [OF a b that]) (rule kids)
    with a b flag show ?thesis by (simp add: JsonNode.simps)
  qed
next
  case (6 props indentLevel st)
  from "6.prems" [of "[]"] have flag: "isCollapsed st indentLevel = isCollapsed st2 indentLevel"
    by (simp add: subtree_cells_Nil)
  have kids: "isCollapsed (subtree_cells r (child_cells i st)) (indentLevel + 1 + length r) =
      isCollapsed (subtree_cells r (child_cells i st2)) (indentLevel + 1 + length r)" for i r
    using "6.prems" [of "i # r"] by (simp add: subtree_cells_Cons)
  show ?case
  proof (cases "length (object_keys props) = 0 \<or> isCollapsed st indentLevel")
    case True
    with flag show ?thesis by (auto simp: JsonNode.simps)
  next
    case False
    then have a: "\<not> length (object_keys props) = 0" and b: "\<not> isCollapsed st indentLevel"
      by simp_all
    have "JsonNode v (indentLevel + 1) (child_cells index st) =
          JsonNode v (indentLevel + 1) (child_cells index st2)"
      if "index \<in> set [0..<length (object_keys props)]"
        and "map_of props (object_keys props ! index) = Some v" for index v
      by (rule "6.IH" [OF a b that]) (rule kids)
    with a b flag show ?thesis by (simp add: JsonNode.simps split: option.split)
  qed
qed (simp_all add: JsonNode.simps)

lemma double_toggle_display_initial:
  fixes v :: "'n json"
  assumes "isCollapsed (subtree_cells p st) (d + length p) \<or>
           (\<forall>q. q \<noteq> [] \<longrightarrow>
              isCollapsed (subtree_cells q (subtree_cells p st)) (d + length p + length q))"
  shows "JsonNode v d (toggleCollapse p d (toggleCollapse p d st)) = JsonNode v d st"
  using assms
proof (induction p arbitrary: v d st)
  case Nil
  let ?st2 = "toggleCollapse [] d (toggleCollapse [] d st)"
  have flag: "isCollapsed ?st2 d = isCollapsed st d"
    by (simp add: isCollapsed_def)
  from Nil.prems show ?case
  proof
    assume "isCollapsed (subtree_cells [] st) (d + length ([] :: nat list))"
    then have "isCollapsed st d" by (simp add: subtree_cells_Nil)
    moreover from this flag have "isCollapsed ?st2 d" by simp
    ultimately show ?thesis by (intro JsonNode_collapsed_cong)
  next
    assume "\<forall>q. q \<noteq> [] \<longrightarrow>
      isCollapsed (subtree_cells q (subtree_cells [] st)) (d + length ([] :: nat list) + length q)"
    then have init: "isCollapsed (subtree_cells q st) (d + length q)" if "q \<noteq> []" for q
      using that by (simp add: subtree_cells_Nil)
    have "isCollapsed (subtree_cells r ?st2) (d + length r) =
          isCollapsed (subtree_cells r st) (d + length r)" for r
    proof (cases "r = []")
      case True
      with flag show ?thesis by (simp add: subtree_cells_Nil)
    next
      case False
      then have "subtree_cells r ?st2 [] = None" by (simp add: subtree_cells_def)
      with False have "isCollapsed (subtree_cells r ?st2) (d + length r)"
        by (simp add: isCollapsed_def)
      with init [OF False] show ?thesis by simp
    qed
    then show ?thesis by (rule JsonNode_flags_cong)
  qed
next
  case (Cons i p)
  let ?st2 = "toggleCollapse (i # p) d (toggleCollapse (i # p) d st)"
  have flag: "isCollapsed ?st2 d = isCollapsed st d"
    by (simp only: isCollapsed_toggle_Cons)
  have kids_i: "child_cells i ?st2 =
      toggleCollapse p (d + 1) (toggleCollapse p (d + 1) (child_cells i st))"
    by (simp only: child_cells_toggle_Cons simp_thms if_True)
  have kids_other: "child_cells j ?st2 = child_cells j st" if "j \<noteq> i" for j
    using that by (simp only: child_cells_toggle_Cons if_False)
  from Cons.prems
  have prem: "isCollapsed (subtree_cells p (child_cells i st)) (d + 1 + length p) \<or>
           (\<forall>q. q \<noteq> [] \<longrightarrow>
              isCollapsed (subtree_cells q (subtree_cells p (child_cells i st)))
                (d + 1 + length p + length q))"
    by (simp add: subtree_cells_Cons)
  have kids: "JsonNode c (Suc d) (child_cells j ?st2) = JsonNode c (Suc d) (child_cells j st)"
    for j and c :: "'n json"
  proof (cases "j = i")
    case True
    with Cons.IH [OF prem, of c] kids_i show ?thesis by simp
  next
    case False
    with kids_other [of j] show ?thesis by simp
  qed
  show ?case by (rule JsonNode_cong) (simp_all only: flag kids)
qed

lemma subtree_cells_append: "subtree_cells q (subtree_cells p st) = subtree_cells (p @ q) st"
  by (rule ext) (simp add: subtree_cells_def)

lemma descendants_initial:
  assumes "\<forall>q. strict_prefix p q \<longrightarrow> isCollapsed (subtree_cells q st) (d + length q)"
  shows "\<forall>q. q \<noteq> [] \<longrightarrow>
           isCollapsed (subtree_cells q (subtree_cells p st)) (d + length p + length q)"
proof (intro allI impI)
  fix q :: "nat list"
  assume "q \<noteq> []"
  then have "strict_prefix p (p @ q)" by (simp add: strict_prefix_def)
  with assms have "isCollapsed (subtree_cells (p @ q) st) (d + length (p @ q))" by blast
  then show "isCollapsed (subtree_cells q (subtree_cells p st)) (d + length p + length q)"
    by (simp add: subtree_cells_append add.assoc)
qed

section \<open>Claims about calculateErrorRange\<close>

text \<open>
  Claim C1, as stated, says that \<open>calculateErrorRange\<close> returns \<open>null\<close> only when no
  position can be extracted from the message. The function also returns \<open>null\<close> when a
  position is extracted but lies beyond the end of the text (the guard
  \<open>position > text.length\<close>): for the empty text and the message \<open>at position 5\<close> the
  position 5 is extracted and the result is \<open>null\<close>.
\<close>

theorem C1_counterexample:
  "extracted_position (js ''at position 5'') = Some 5 \<and>
   calculateErrorRange [] (js ''at position 5'') = None"
  by code_simp

text \<open>
  Claim C1, amended: \<open>calculateErrorRange\<close> returns \<open>null\<close> exactly when no position can
  be extracted from the message or the extracted position is greater than the length of
  the text; in every other case it returns a span with
  \<open>0 \<le> start \<le> end \<le> length text\<close>.
\<close>

theorem C1_absent_iff:
  "(calculateErrorRange T M = None \<longleftrightarrow>
      extracted_position M = None \<or> (\<exists>p. extracted_position M = Some p \<and> length T < p)) \<and>
   (\<forall>r. calculateErrorRange T M = Some r \<longrightarrow>
      0 \<le> start r \<and> start r \<le> end' r \<and> end' r \<le> length T)"
  using calc_well_formed [of T M] calc_None_iff [of T M]
  by (cases "extracted_position M") auto

theorem C1_absent_iff_witness:
  \<open>calculateErrorRange (js ''{"a": bad}'') (js ''Unexpected token b in JSON at position 6'') =
     Some \<lparr>start = 6, end' = 9\<rparr> \<and>
   (0::nat) \<le> start \<lparr>start = 6, end' = 9\<rparr> \<and>
   start \<lparr>start = 6, end' = 9\<rparr> \<le> end' \<lparr>start = 6, end' = 9\<rparr> \<and>
   end' \<lparr>start = 6, end' = 9\<rparr> \<le> length (js ''{"a": bad}'')\<close>
proof -
  have h: \<open>calculateErrorRange (js ''{"a": bad}'')
      (js ''Unexpected token b in JSON at position 6'') = Some \<lparr>start = 6, end' = 9\<rparr>\<close>
    by code_simp
  from C1_absent_iff [of \<open>js ''{"a": bad}''\<close> "js ''Unexpected token b in JSON at position 6''"] h
  show ?thesis by blast
qed

text \<open>
  Claim C3, as stated, expects the span \<open>{start: 0, end: 6}\<close> for the text \<open>{"a":\<close>
  and a message with the unexpected-end phrase and \<open>at position 6\<close>. The text has five
  characters, so position 6 fails the guard \<open>position > text.length\<close> and the result is
  \<open>null\<close>.
\<close>

theorem C3_counterexample:
  \<open>js_includes (js ''Unexpected end of JSON input at position 6'') unexpected_end \<and>
   js_includes (js ''Unexpected end of JSON input at position 6'') (js ''at position 6'') \<and>
   length (js ''{"a":'') = 5 \<and>
   calculateErrorRange (js ''{"a":'') (js ''Unexpected end of JSON input at position 6'') = None\<close>
  by code_simp

text \<open>
  Claim C3, amended: for the text \<open>{"a":\<close> (length 5) and any message that contains the
  unexpected-end phrase and from which the position \<open>p\<close> is extracted, the result is the
  span \<open>{start: 0, end: 5}\<close> (the whole single line) when \<open>p \<le> 5\<close>, and \<open>null\<close> when
  \<open>p > 5\<close>, in particular for position 6.
\<close>

theorem C3_unexpected_end_example:
  assumes "js_includes M unexpected_end" and "extracted_position M = Some p"
  shows \<open>calculateErrorRange (js ''{"a":'') M =
           (if p \<le> 5 then Some \<lparr>start = 0, end' = 5\<rparr> else None)\<close>
proof (cases "p \<le> 5")
  case True
  have len: \<open>length (js ''{"a":'') = 5\<close> by (simp add: js_def)
  have nl: \<open>lastIndexOf (js ''{"a":'') newline = - 1\<close> by code_simp
  from True len have \<open>p \<le> length (js ''{"a":'')\<close> by simp
  from calc_unexpected_end [OF assms(2) this assms(1)] True nl len show ?thesis by simp
next
  case False
  have len: \<open>length (js ''{"a":'') = 5\<close> by (simp add: js_def)
  with False assms(2) calc_None_iff [of \<open>js ''{"a":''\<close> M] show ?thesis by simp
qed

theorem C3_unexpected_end_example_witness:
  \<open>js_includes (js ''Unexpected end of JSON input at position 5'') unexpected_end \<and>
   extracted_position (js ''Unexpected end of JSON input at position 5'') = Some 5 \<and>
   calculateErrorRange (js ''{"a":'') (js ''Unexpected end of JSON input at position 5'') =
     Some \<lparr>start = 0, end' = 5\<rparr>\<close>
proof -
  have 1: "js_includes (js ''Unexpected end of JSON input at position 5'') unexpected_end"
    by code_simp
  have 2: "extracted_position (js ''Unexpected end of JSON input at position 5'') = Some 5"
    by code_simp
  from C3_unexpected_end_example [OF 1 2] 1 2 show ?thesis by simp
qed

text \<open>
  Claim C4: when a position \<open>p \<le> length T\<close> is extracted, the message is not the
  unexpected-end case and \<open>T[p]\<close> (when \<open>p < length T\<close>) is not a delimiter, the result is
  the maximal run of non-delimiters around \<open>p\<close>: \<open>start\<close> is the least index such that
  \<open>T[start..p)\<close> holds no delimiter, and \<open>end\<close> is the greatest index up to \<open>length T\<close>
  such that \<open>T[p..end)\<close> holds no delimiter. In particular, for \<open>{"a": bad}\<close> and an error
  at position 6 the span is \<open>{start: 6, end: 9}\<close>.
\<close>

theorem C4_maximal_run:
  assumes "extracted_position M = Some p" and "p \<le> length T"
    and "\<not> js_includes M unexpected_end"
    and "p < length T \<longrightarrow> \<not> delimiters (T ! p)"
  shows \<open>(\<exists>s e. calculateErrorRange T M = Some \<lparr>start = s, end' = e\<rparr> \<and>
            s \<le> p \<and> (\<forall>i. s \<le> i \<and> i < p \<longrightarrow> \<not> delimiters (T ! i)) \<and>
            (\<forall>s'. s' \<le> p \<and> (\<forall>i. s' \<le> i \<and> i < p \<longrightarrow> \<not> delimiters (T ! i)) \<longrightarrow> s \<le> s') \<and>
            p \<le> e \<and> e \<le> length T \<and> (\<forall>i. p \<le> i \<and> i < e \<longrightarrow> \<not> delimiters (T ! i)) \<and>
            (\<forall>e'. p \<le> e' \<and> e' \<le> length T \<and> (\<forall>i. p \<le> i \<and> i < e' \<longrightarrow> \<not> delimiters (T ! i))
               \<longrightarrow> e' \<le> e)) \<and>
         (T = js ''{"a": bad}'' \<and> p = 6 \<longrightarrow>
            calculateErrorRange T M = Some \<lparr>start = 6, end' = 9\<rparr>)\<close>
proof (rule conjI)
  let ?s = "expand_start T p" and ?e = "expand_end T p"
  have res: "calculateErrorRange T M = Some \<lparr>start = ?s, end' = ?e\<rparr>"
    by (rule calc_token [OF assms])
  have a: "?s \<le> p" by (rule expand_start_le)
  have b: "\<forall>i. ?s \<le> i \<and> i < p \<longrightarrow> \<not> delimiters (T ! i)"
    using expand_start_run by blast
  have c: "\<forall>s'. s' \<le> p \<and> (\<forall>i. s' \<le> i \<and> i < p \<longrightarrow> \<not> delimiters (T ! i)) \<longrightarrow> ?s \<le> s'"
    using expand_start_least by blast
  have d: "p \<le> ?e" by (rule expand_end_ge)
  have e: "?e \<le> length T" by (rule expand_end_le [OF assms(2)])
  have f: "\<forall>i. p \<le> i \<and> i < ?e \<longrightarrow> \<not> delimiters (T ! i)"
    using expand_end_run by blast
  have g: "\<forall>e'. p \<le> e' \<and> e' \<le> length T \<and> (\<forall>i. p \<le> i \<and> i < e' \<longrightarrow> \<not> delimiters (T ! i))
               \<longrightarrow> e' \<le> ?e"
    using expand_end_greatest by blast
  show \<open>\<exists>s e. calculateErrorRange T M = Some \<lparr>start = s, end' = e\<rparr> \<and>
            s \<le> p \<and> (\<forall>i. s \<le> i \<and> i < p \<longrightarrow> \<not> delimiters (T ! i)) \<and>
            (\<forall>s'. s' \<le> p \<and> (\<forall>i. s' \<le> i \<and> i < p \<longrightarrow> \<not> delimiters (T ! i)) \<longrightarrow> s \<le> s') \<and>
            p \<le> e \<and> e \<le> length T \<and> (\<forall>i. p \<le> i \<and> i < e \<longrightarrow> \<not> delimiters (T ! i)) \<and>
            (\<forall>e'. p \<le> e' \<and> e' \<le> length T \<and> (\<forall>i. p \<le> i \<and> i < e' \<longrightarrow> \<not> delimiters (T ! i))
               \<longrightarrow> e' \<le> e)\<close>
    by (rule exI [of _ ?s], rule exI [of _ ?e]) (intro conjI res a b c d e f g)
  have s6: \<open>expand_start (js ''{"a": bad}'') 6 = 6\<close> by code_simp
  have e6: \<open>expand_end (js ''{"a": bad}'') 6 = 9\<close> by code_simp
  show \<open>T = js ''{"a": bad}'' \<and> p = 6 \<longrightarrow>
            calculateErrorRange T M = Some \<lparr>start = 6, end' = 9\<rparr>\<close>
  proof
    assume ex: \<open>T = js ''{"a": bad}'' \<and> p = 6\<close>
    with s6 e6 have "?s = 6" and "?e = 9" by simp_all
    with res show "calculateErrorRange T M = Some \<lparr>start = 6, end' = 9\<rparr>" by simp
  qed
qed

theorem C4_maximal_run_witness:
  \<open>extracted_position (js ''Unexpected token b in JSON at position 6'') = Some 6 \<and>
   6 \<le> length (js ''{"a": bad}'') \<and>
   \<not> js_includes (js ''Unexpected token b in JSON at position 6'') unexpected_end \<and>
   \<not> delimiters (js ''{"a": bad}'' ! 6) \<and>
   calculateErrorRange (js ''{"a": bad}'') (js ''Unexpected token b in JSON at position 6'') =
     Some \<lparr>start = 6, end' = 9\<rparr>\<close>
proof -
  have 1: "extracted_position (js ''Unexpected token b in JSON at position 6'') = Some 6"
    by code_simp
  have 2: \<open>6 \<le> length (js ''{"a": bad}'')\<close> by code_simp
  have 3: "\<not> js_includes (js ''Unexpected token b in JSON at position 6'') unexpected_end"
    by code_simp
  have 4: \<open>\<not> delimiters (js ''{"a": bad}'' ! 6)\<close> by code_simp
  then have 5: \<open>6 < length (js ''{"a": bad}'') \<longrightarrow> \<not> delimiters (js ''{"a": bad}'' ! 6)\<close>
    by simp
  from C4_maximal_run [OF 1 2 3 5] 1 2 3 4 show ?thesis by simp
qed

text \<open>
  Claim C5: when a position \<open>p < length T\<close> is extracted, the message is not the
  unexpected-end case and \<open>T[p]\<close> is a delimiter, the result is the one-character span
  \<open>{start: p, end: p + 1}\<close>. The instance of the claim, the text \<open>{"a":1}\<close> with the
  message \<open>Unexpected token , in JSON at position 0\<close>, follows it.
\<close>

theorem C5_single_delimiter:
  assumes "extracted_position M = Some p" and "p < length T"
    and "\<not> js_includes M unexpected_end" and "delimiters (T ! p)"
  shows "calculateErrorRange T M = Some \<lparr>start = p, end' = p + 1\<rparr>"
  by (rule calc_delimiter [OF assms])

theorem C5_single_delimiter_witness:
  \<open>extracted_position (js ''Unexpected token , in JSON at position 0'') = Some 0 \<and>
   0 < length (js ''{"a":1}'') \<and>
   \<not> js_includes (js ''Unexpected token , in JSON at position 0'') unexpected_end \<and>
   delimiters (js ''{"a":1}'' ! 0) \<and>
   calculateErrorRange (js ''{"a":1}'') (js ''Unexpected token , in JSON at position 0'') =
     Some \<lparr>start = 0, end' = 1\<rparr>\<close>
proof -
  have 1: "extracted_position (js ''Unexpected token , in JSON at position 0'') = Some 0"
    by code_simp
  have 2: \<open>0 < length (js ''{"a":1}'')\<close> by code_simp
  have 3: "\<not> js_includes (js ''Unexpected token , in JSON at position 0'') unexpected_end"
    by code_simp
  have 4: \<open>delimiters (js ''{"a":1}'' ! 0)\<close> by code_simp
  from C5_single_delimiter [OF 1 2 3 4] 1 2 3 4 show ?thesis by simp
qed

text \<open>
  Claim C9: when the function reaches the two expansion loops (a position
  \<open>p \<le> length T\<close> was extracted, the message is not the unexpected-end case, and the
  one-character delimiter branch did not apply), the loops never end with
  \<open>start = end\<close> and \<open>end < length T\<close>. So the fallback branch is never taken, the
  result is the pair the loops computed, and \<open>start = end\<close> after the loops means that
  both equal \<open>length T\<close>.
\<close>

theorem C9_fallback_unreachable:
  assumes "extracted_position M = Some p" and "p \<le> length T"
    and "\<not> js_includes M unexpected_end"
    and "\<not> (p < length T \<and> delimiters (T ! p))"
  shows "\<not> (expand_start T p = expand_end T p \<and> expand_end T p < length T) \<and>
         (expand_start T p = expand_end T p \<longrightarrow>
            expand_start T p = length T \<and> expand_end T p = length T) \<and>
         calculateErrorRange T M = Some \<lparr>start = expand_start T p, end' = expand_end T p\<rparr>"
proof -
  from assms(4) have nd: "p < length T \<longrightarrow> \<not> delimiters (T ! p)" by simp
  have 1: "\<not> (expand_start T p = expand_end T p \<and> expand_end T p < length T)"
    by (rule no_fallback [OF nd])
  with expand_end_le [OF assms(2)]
  have 2: "expand_start T p = expand_end T p \<longrightarrow>
            expand_start T p = length T \<and> expand_end T p = length T" by auto
  from 1 2 calc_token [OF assms(1-3) nd] show ?thesis by blast
qed

theorem C9_fallback_unreachable_witness:
  "extracted_position (js ''x at position 2'') = Some 2 \<and>
   2 \<le> length (js ''a,'') \<and>
   \<not> js_includes (js ''x at position 2'') unexpected_end \<and>
   \<not> (2 < length (js ''a,'') \<and> delimiters (js ''a,'' ! 2)) \<and>
   expand_start (js ''a,'') 2 = expand_end (js ''a,'') 2 \<and>
   expand_end (js ''a,'') 2 = length (js ''a,'')"
proof -
  have 1: "extracted_position (js ''x at position 2'') = Some 2" by code_simp
  have 2: "2 \<le> length (js ''a,'')" by code_simp
  have 3: "\<not> js_includes (js ''x at position 2'') unexpected_end" by code_simp
  have 4: "\<not> (2 < length (js ''a,'') \<and> delimiters (js ''a,'' ! 2))" by (simp add: js_def)
  have 5: "expand_start (js ''a,'') 2 = expand_end (js ''a,'') 2" by code_simp
  from C9_fallback_unreachable [OF 1 2 3 4] 1 2 3 4 5 show ?thesis by simp
qed

text \<open>
  Claim C10: there are texts and messages for which the result is the empty span at the
  end of the text, for example the text \<open>a,\<close> with a message that holds
  \<open>at position 2\<close> and not the unexpected-end phrase. In the expansion phase (the
  message does not contain the unexpected-end phrase), whenever the extracted position
  equals \<open>length T\<close> and the last character of \<open>T\<close> is a delimiter, the result is
  the empty span \<open>{start: length T, end: length T}\<close>, which highlights no character.
\<close>

theorem C10_empty_span_at_end:
  assumes "extracted_position M = Some (length T)"
    and "\<not> js_includes M unexpected_end"
    and "T \<noteq> []" and "delimiters (last T)"
  shows "calculateErrorRange T M = Some \<lparr>start = length T, end' = length T\<rparr>"
proof -
  from assms(3,4) have d: "delimiters (T ! (length T - 1))"
    by (simp add: last_conv_nth)
  then have s: "expand_start T (length T) = length T"
    by (intro expand_start_halt) simp
  have e: "expand_end T (length T) = length T"
    by (intro expand_end_halt) simp
  from calc_token [OF assms(1) _ assms(2)] s e show ?thesis by simp
qed

theorem C10_empty_span_at_end_witness:
  "extracted_position (js ''x at position 2'') = Some (length (js ''a,'')) \<and>
   \<not> js_includes (js ''x at position 2'') unexpected_end \<and>
   js ''a,'' \<noteq> [] \<and> delimiters (last (js ''a,'')) \<and>
   calculateErrorRange (js ''a,'') (js ''x at position 2'') = Some \<lparr>start = 2, end' = 2\<rparr>"
proof -
  have 1: "extracted_position (js ''x at position 2'') = Some (length (js ''a,''))" by code_simp
  have 2: "\<not> js_includes (js ''x at position 2'') unexpected_end" by code_simp
  have 3: "js ''a,'' \<noteq> []" by (simp add: js_def)
  have 4: "delimiters (last (js ''a,''))" by code_simp
  have 5: "length (js ''a,'') = 2" by (simp add: js_def)
  from C10_empty_span_at_end [OF 1 2 3 4] 1 2 3 4 5 show ?thesis by simp
qed

section \<open>Claims about getLineAndColumn\<close>

text \<open>
  Claim C2: for every text \<open>T\<close> and offset \<open>o \<ge> 0\<close>, \<open>getLineAndColumn\<close> returns \<open>null\<close>
  if and only if \<open>o > length T\<close>. Otherwise \<open>line\<close> is one plus the number of line feeds at
  indices below \<open>o\<close>, and \<open>column\<close> is \<open>o\<close> minus the index just after the last line feed
  below \<open>o\<close> (0 when there is none) plus one; so \<open>line \<ge> 1\<close>, \<open>column \<ge> 1\<close>, and the
  result is \<open>{line: 1, column: o + 1}\<close> when no line feed precedes \<open>o\<close>.
\<close>

theorem C2_line_column:
  "(getLineAndColumn T o' = None \<longleftrightarrow> length T < o') \<and>
   (o' \<le> length T \<longrightarrow>
      getLineAndColumn T o' =
        Some \<lparr>line = 1 + int (card {j. j < o' \<and> T ! j = newline}),
              column = int o' -
                int (if {j. j < o' \<and> T ! j = newline} = {} then 0
                     else Max {j. j < o' \<and> T ! j = newline} + 1) + 1\<rparr> \<and>
      (\<forall>r. getLineAndColumn T o' = Some r \<longrightarrow> 1 \<le> line r \<and> 1 \<le> column r) \<and>
      ({j. j < o' \<and> T ! j = newline} = {} \<longrightarrow>
         getLineAndColumn T o' = Some \<lparr>line = 1, column = int o' + 1\<rparr>))"
proof -
  have eq: "newlines_in T 0 o' = {j. j < o' \<and> T ! j = newline}"
    by (simp add: newlines_in_def)
  have le: "int (line_start T o') \<le> int o'"
    using line_start_le [of T o'] by simp
  show ?thesis
    using le unfolding getLineAndColumn_eq line_start_def eq
    by (auto split: if_splits)
qed

theorem C2_line_column_witness:
  "3 \<le> length (js ''a\<newline>bc'') \<and>
   {j. j < 3 \<and> js ''a\<newline>bc'' ! j = newline} = {1} \<and>
   getLineAndColumn (js ''a\<newline>bc'') 3 = Some \<lparr>line = 2, column = 2\<rparr>"
proof -
  have len: "3 \<le> length (js ''a\<newline>bc'')" by (simp add: js_def)
  have nls: "{j. j < 3 \<and> js ''a\<newline>bc'' ! j = newline} = {1}"
  proof (rule set_eqI)
    fix j :: nat
    consider "j = 0" | "j = 1" | "j = 2" | "3 \<le> j" by arith
    then show "j \<in> {j. j < 3 \<and> js ''a\<newline>bc'' ! j = newline} \<longleftrightarrow> j \<in> {1}"
      by cases (simp_all add: js_def newline_def)
  qed
  from C2_line_column [of "js ''a\<newline>bc''" 3] len
  have "getLineAndColumn (js ''a\<newline>bc'') 3 =
        Some \<lparr>line = 1 + int (card {j. j < 3 \<and> js ''a\<newline>bc'' ! j = newline}),
              column = int 3 -
                int (if {j. j < 3 \<and> js ''a\<newline>bc'' ! j = newline} = {} then 0
                     else Max {j. j < 3 \<and> js ''a\<newline>bc'' ! j = newline} + 1) + 1\<rparr>"
    by blast
  then have "getLineAndColumn (js ''a\<newline>bc'') 3 = Some \<lparr>line = 2, column = 2\<rparr>"
    unfolding nls by simp
  with len nls show ?thesis by blast
qed

section \<open>Claims about the tree viewer\<close>

text \<open>
  Claim C6, as stated, says that the children of an expanded record are displayed in the
  insertion order of the input. The component takes the keys from \<open>Object.keys\<close>,
  which lists array-index keys first: the object parsed from \<open>{"b": null, "1": null}\<close>
  is displayed with the key \<open>1\<close> before the key \<open>b\<close>.
\<close>
theorem C6_counterexample:
  "JsonNode (JObject [(js ''b'', JNull :: int json), (js ''1'', JNull)]) 0 initial_cells =
     VExpanded False [Row (Some (js ''1'')) VNull True, Row (Some (js ''b'')) VNull False] \<and>
   [js ''1'', js ''b''] \<noteq> map fst [(js ''b'', JNull :: int json), (js ''1'', JNull)]"
  by code_simp

text \<open>
  Claim C6, amended: for every record with at least one entry rendered in the expanded
  state, the children are displayed in the order of \<open>Object.keys\<close>: the keys that are
  array indices first, in ascending numeric order, then the other keys in their
  insertion order; when no key is an array index this is the insertion order of the
  input. Each child is the rendering of the value of its key one level deeper and is
  prefixed with that key (displayed in quotes), and every child except the last is
  followed by a comma. For lists the children appear in index order, without a key and
  with the same comma rule.
\<close>
theorem C6_children_order:
  fixes props :: "(jsstring \<times> 'n json) list" and items :: "'n json list"
  assumes "\<not> isCollapsed st d"
  shows
    "(props \<noteq> [] \<longrightarrow>
       (\<exists>rows. JsonNode (JObject props) d st = VExpanded False rows \<and>
          length rows = length props \<and>
          map row_key rows = map Some (object_keys props) \<and>
          object_keys props =
            sort_key numeric_value (filter is_array_index (map fst props)) @
            filter (\<lambda>k. \<not> is_array_index k) (map fst props) \<and>
          (\<forall>i<length rows.
             (\<exists>v. map_of props (object_keys props ! i) = Some v \<and>
                  row_child (rows ! i) = JsonNode v (d + 1) (child_cells i st)) \<and>
             row_comma (rows ! i) = (i < length rows - 1)) \<and>
          (distinct (map fst props) \<and> (\<forall>k\<in>set (map fst props). \<not> is_array_index k) \<longrightarrow>
             (\<forall>i<length rows.
                row_key (rows ! i) = Some (fst (props ! i)) \<and>
                row_child (rows ! i) =
                  JsonNode (snd (props ! i)) (d + 1) (child_cells i st))))) \<and>
     (items \<noteq> [] \<longrightarrow>
       (\<exists>rows. JsonNode (JArray items) d st = VExpanded True rows \<and>
          length rows = length items \<and>
          (\<forall>i<length rows.
             row_key (rows ! i) = None \<and>
             row_child (rows ! i) = JsonNode (items ! i) (d + 1) (child_cells i st) \<and>
             row_comma (rows ! i) = (i < length rows - 1))))"
proof (intro conjI impI)
  assume ne: "props \<noteq> []"
  let ?keys = "object_keys props"
  let ?rows = "map (\<lambda>index. Row (Some (?keys ! index))
                         (case map_of props (?keys ! index) of
                            Some v \<Rightarrow> JsonNode v (d + 1) (child_cells index st)
                          | None \<Rightarrow> VNothing)
                         (index < length ?keys - 1))
          [0..<length ?keys]"
  have view: "JsonNode (JObject props) d st = VExpanded False ?rows"
    by (rule JsonNode_object_expanded [OF ne assms])
  have len: "length ?rows = length props"
    by (simp add: length_object_keys)
  have keys: "map row_key ?rows = map Some ?keys"
    by (rule nth_equalityI) simp_all
  have order: "?keys = sort_key numeric_value (filter is_array_index (map fst props)) @
            filter (\<lambda>k. \<not> is_array_index k) (map fst props)"
    by (rule object_keys_def)
  have rows: "\<forall>i<length ?rows.
             (\<exists>v. map_of props (?keys ! i) = Some v \<and>
                  row_child (?rows ! i) = JsonNode v (d + 1) (child_cells i st)) \<and>
             row_comma (?rows ! i) = (i < length ?rows - 1)"
  proof (intro allI impI)
    fix i assume "i < length ?rows"
    then have i: "i < length props" by (simp add: length_object_keys)
    from object_keys_lookup [OF i] obtain v where "map_of props (?keys ! i) = Some v" ..
    with i show "(\<exists>v. map_of props (?keys ! i) = Some v \<and>
                  row_child (?rows ! i) = JsonNode v (d + 1) (child_cells i st)) \<and>
             row_comma (?rows ! i) = (i < length ?rows - 1)"
      by (simp add: length_object_keys)
  qed
  have insertion: "distinct (map fst props) \<and> (\<forall>k\<in>set (map fst props). \<not> is_array_index k) \<longrightarrow>
             (\<forall>i<length ?rows.
                row_key (?rows ! i) = Some (fst (props ! i)) \<and>
                row_child (?rows ! i) =
                  JsonNode (snd (props ! i)) (d + 1) (child_cells i st))"
  proof (intro allI impI, elim conjE)
    fix i
    assume dist: "distinct (map fst props)"
      and noidx: "\<forall>k\<in>set (map fst props). \<not> is_array_index k"
      and "i < length ?rows"
    then have i: "i < length props" by (simp add: length_object_keys)
    have k: "?keys = map fst props" by (rule object_keys_insertion_order [OF noidx])
    from i have ki: "?keys ! i = fst (props ! i)" by (simp add: k)
    from map_of_nth_distinct [OF dist i] i ki
    show "row_key (?rows ! i) = Some (fst (props ! i)) \<and>
                row_child (?rows ! i) =
                  JsonNode (snd (props ! i)) (d + 1) (child_cells i st)"
      by (simp add: length_object_keys)
  qed
  from view len keys order rows insertion
  show "\<exists>rows. JsonNode (JObject props) d st = VExpanded False rows \<and>
          length rows = length props \<and>
          map row_key rows = map Some (object_keys props) \<and>
          object_keys props =
            sort_key numeric_value (filter is_array_index (map fst props)) @
            filter (\<lambda>k. \<not> is_array_index k) (map fst props) \<and>
          (\<forall>i<length rows.
             (\<exists>v. map_of props (object_keys props ! i) = Some v \<and>
                  row_child (rows ! i) = JsonNode v (d + 1) (child_cells i st)) \<and>
             row_comma (rows ! i) = (i < length rows - 1)) \<and>
          (distinct (map fst props) \<and> (\<forall>k\<in>set (map fst props). \<not> is_array_index k) \<longrightarrow>
             (\<forall>i<length rows.
                row_key (rows ! i) = Some (fst (props ! i)) \<and>
                row_child (rows ! i) =
                  JsonNode (snd (props ! i)) (d + 1) (child_cells i st)))"
    by (intro exI [of _ ?rows] conjI)
next
  assume ne: "items \<noteq> []"
  let ?rows = "map (\<lambda>index. Row None (JsonNode (items ! index) (d + 1) (child_cells index st))
                         (index < length items - 1)) [0..<length items]"
  have view: "JsonNode (JArray items) d st = VExpanded True ?rows"
    by (rule JsonNode_array_expanded [OF ne assms])
  have rows: "\<forall>i<length ?rows.
             row_key (?rows ! i) = None \<and>
             row_child (?rows ! i) = JsonNode (items ! i) (d + 1) (child_cells i st) \<and>
             row_comma (?rows ! i) = (i < length ?rows - 1)"
    by simp
  have len: "length ?rows = length items" by simp
  from view len rows
  show "\<exists>rows. JsonNode (JArray items) d st = VExpanded True rows \<and>
          length rows = length items \<and>
          (\<forall>i<length rows.
             row_key (rows ! i) = None \<and>
             row_child (rows ! i) = JsonNode (items ! i) (d + 1) (child_cells i st) \<and>
             row_comma (rows ! i) = (i < length rows - 1))"
    by (intro exI [of _ ?rows] conjI)
qed

theorem C6_children_order_witness:
  "\<not> isCollapsed initial_cells 0 \<and>
   distinct (map fst [(js ''b'', JNull :: int json), (js ''a'', JNull)]) \<and>
   \<not> is_array_index (js ''b'') \<and> \<not> is_array_index (js ''a'') \<and>
   (\<exists>rows. JsonNode (JObject [(js ''b'', JNull :: int json), (js ''a'', JNull)]) 0 initial_cells =
             VExpanded False rows \<and>
           length rows = 2 \<and>
           row_key (rows ! 0) = Some (js ''b'') \<and> row_comma (rows ! 0) \<and>
           row_key (rows ! 1) = Some (js ''a'') \<and> \<not> row_comma (rows ! 1)) \<and>
   (\<exists>rows. JsonNode (JArray [JNull :: int json, JBoolean True]) 0 initial_cells =
             VExpanded True rows \<and>
           length rows = 2 \<and>
           row_child (rows ! 0) = JsonNode JNull 1 (child_cells 0 initial_cells) \<and>
           row_comma (rows ! 0) \<and>
           row_child (rows ! 1) = JsonNode (JBoolean True) 1 (child_cells 1 initial_cells) \<and>
           \<not> row_comma (rows ! 1))"
proof -
  let ?props = "[(js ''b'', JNull :: int json), (js ''a'', JNull)]"
  let ?items = "[JNull :: int json, JBoolean True]"
  have root_expanded: "\<not> isCollapsed initial_cells 0"
    by (simp add: isCollapsed_def initial_cells_def)
  have dist: "distinct (map fst ?props)" by code_simp
  have noidx: "\<forall>k\<in>set (map fst ?props). \<not> is_array_index k" by code_simp
  note inst = C6_children_order [where st = initial_cells and d = 0 and props = ?props
      and items = ?items, OF root_expanded]
  from inst obtain rows where
    v: "JsonNode (JObject ?props) 0 initial_cells = VExpanded False rows" and
    l: "length rows = length ?props" and
    c: "\<forall>i<length rows.
             (\<exists>v. map_of ?props (object_keys ?props ! i) = Some v \<and>
                  row_child (rows ! i) = JsonNode v (0 + 1) (child_cells i initial_cells)) \<and>
             row_comma (rows ! i) = (i < length rows - 1)" and
    k: "distinct (map fst ?props) \<and> (\<forall>k\<in>set (map fst ?props). \<not> is_array_index k) \<longrightarrow>
             (\<forall>i<length rows.
                row_key (rows ! i) = Some (fst (?props ! i)) \<and>
                row_child (rows ! i) =
                  JsonNode (snd (?props ! i)) (0 + 1) (child_cells i initial_cells))"
    by blast
  from l have l2: "length rows = 2" by simp
  from k dist noidx have k': "\<forall>i<length rows. row_key (rows ! i) = Some (fst (?props ! i))"
    by blast
  from k' l2 have k0: "row_key (rows ! 0) = Some (js ''b'')" by simp
  from k' l2 have k1: "row_key (rows ! 1) = Some (js ''a'')" by simp
  from c l2 have c0: "row_comma (rows ! 0)" by simp
  from c l2 have c1: "\<not> row_comma (rows ! 1)" by simp
  from v l2 k0 k1 c0 c1
  have obj: "\<exists>rows. JsonNode (JObject ?props) 0 initial_cells = VExpanded False rows \<and>
           length rows = 2 \<and>
           row_key (rows ! 0) = Some (js ''b'') \<and> row_comma (rows ! 0) \<and>
           row_key (rows ! 1) = Some (js ''a'') \<and> \<not> row_comma (rows ! 1)"
    by blast
  from inst obtain rows' where
    v': "JsonNode (JArray ?items) 0 initial_cells = VExpanded True rows'" and
    l': "length rows' = length ?items" and
    c': "\<forall>i<length rows'.
             row_key (rows' ! i) = None \<and>
             row_child (rows' ! i) = JsonNode (?items ! i) (0 + 1) (child_cells i initial_cells) \<and>
             row_comma (rows' ! i) = (i < length rows' - 1)"
    by blast
  from l' have l2': "length rows' = 2" by simp
  from c' l2' have a0: "row_child (rows' ! 0) = JsonNode JNull 1 (child_cells 0 initial_cells)"
    and b0: "row_comma (rows' ! 0)" by simp_all
  from c' l2' have a1: "row_child (rows' ! 1) = JsonNode (JBoolean True) 1 (child_cells 1 initial_cells)"
    and b1: "\<not> row_comma (rows' ! 1)" by simp_all
  from v' l2' a0 b0 a1 b1
  have arr: "\<exists>rows. JsonNode (JArray ?items) 0 initial_cells = VExpanded True rows \<and>
           length rows = 2 \<and>
           row_child (rows ! 0) = JsonNode JNull 1 (child_cells 0 initial_cells) \<and>
           row_comma (rows ! 0) \<and>
           row_child (rows ! 1) = JsonNode (JBoolean True) 1 (child_cells 1 initial_cells) \<and>
           \<not> row_comma (rows ! 1)"
    by blast
  have nb: "\<not> is_array_index (js ''b'')" and na: "\<not> is_array_index (js ''a'')"
    by code_simp+
  from root_expanded dist nb na obj arr show ?thesis by blast
qed

text \<open>
  Claim C7: for a list or record with at least one element, the node rendered at depth
  \<open>depth\<close> by a freshly mounted instance (no cell yet, so the flag is the initial value
  of \<open>useState\<close>) is collapsible, and it is displayed collapsed if and only if
  \<open>depth > 0\<close>: the root starts expanded and every container below it starts collapsed.
\<close>
theorem C7_initial_collapse:
  fixes v :: "'n json"
  assumes "(\<exists>items. v = JArray items \<and> items \<noteq> []) \<or> (\<exists>props. v = JObject props \<and> props \<noteq> [])"
    and "st [] = None"
  shows "collapsible (JsonNode v depth st) \<and>
         (collapsed (JsonNode v depth st) \<longleftrightarrow> depth > 0) \<and>
         (isCollapsed st depth \<longleftrightarrow> depth > 0)"
proof -
  from assms(2) have flag: "isCollapsed st depth \<longleftrightarrow> depth > 0"
    by (simp add: isCollapsed_def)
  from assms(1) show ?thesis
  proof (elim disjE exE conjE)
    fix items :: "'n json list"
    assume "v = JArray items" and "items \<noteq> []"
    with flag show ?thesis
      by (cases "depth > 0") (simp_all add: JsonNode_array_collapsed JsonNode_array_expanded)
  next
    fix props :: "(jsstring \<times> 'n json) list"
    assume "v = JObject props" and "props \<noteq> []"
    with flag show ?thesis
      by (cases "depth > 0") (simp_all add: JsonNode_object_collapsed JsonNode_object_expanded)
  qed
qed

theorem C7_initial_collapse_witness:
  "JsonNode (JArray [JArray [JNull :: int json]]) 0 initial_cells =
     VExpanded True [Row None (VCollapsed True 1) False] \<and>
   collapsible (JsonNode (JArray [JNull :: int json]) 1 (child_cells 0 initial_cells)) \<and>
   collapsed (JsonNode (JArray [JNull :: int json]) 1 (child_cells 0 initial_cells)) \<and>
   collapsible (JsonNode (JArray [JArray [JNull :: int json]]) 0 initial_cells) \<and>
   \<not> collapsed (JsonNode (JArray [JArray [JNull :: int json]]) 0 initial_cells)"
proof -
  have 1: "(\<exists>items. JArray [JNull :: int json] = JArray items \<and> items \<noteq> []) \<or>
      (\<exists>props. JArray [JNull :: int json] = JObject props \<and> props \<noteq> [])"
    by simp
  have 2: "child_cells 0 initial_cells [] = None"
    by (simp add: child_cells_def initial_cells_def)
  have 3: "(\<exists>items. JArray [JArray [JNull :: int json]] = JArray items \<and> items \<noteq> []) \<or>
      (\<exists>props. JArray [JArray [JNull :: int json]] = JObject props \<and> props \<noteq> [])"
    by simp
  have 4: "initial_cells [] = None"
    by (simp add: initial_cells_def)
  have 5: "JsonNode (JArray [JArray [JNull :: int json]]) 0 initial_cells =
     VExpanded True [Row None (VCollapsed True 1) False]"
    by code_simp
  from C7_initial_collapse [where v = "JArray [JNull :: int json]" and depth = 1
        and st = "child_cells 0 initial_cells", OF 1 2]
    C7_initial_collapse [where v = "JArray [JArray [JNull :: int json]]" and depth = 0
        and st = initial_cells, OF 3 4] 5
  show ?thesis by simp
qed

text \<open>
  Claim C8, as stated, says that toggling a node twice restores its displayed content
  and that a toggle leaves the state of every descendant unchanged. Collapsing a node
  unmounts its children, which discards their cells. For the document \<open>[[null]]\<close> with
  the inner list expanded by a click, two clicks on the root give the root expanded with
  the inner list collapsed again, and the first of the two clicks already drops the cell
  of the inner list.
\<close>
theorem C8_counterexample:
  "JsonViewer (JArray [JArray [JNull :: int json]]) (toggleCollapse [0] 0 initial_cells) =
     VExpanded True [Row None (VExpanded True [Row None VNull False]) False] \<and>
   JsonViewer (JArray [JArray [JNull :: int json]])
       (toggleCollapse [] 0 (toggleCollapse [] 0 (toggleCollapse [0] 0 initial_cells))) =
     VExpanded True [Row None (VCollapsed True 1) False] \<and>
   toggleCollapse [0] 0 initial_cells [0] = Some False \<and>
   toggleCollapse [] 0 (toggleCollapse [0] 0 initial_cells) [0] = None"
  by code_simp

text \<open>
  Claim C8, amended: a toggle of the node at path \<open>p\<close> negates the flag of that node, and
  a second toggle gives the flag its original value. A toggle leaves the cell of every
  node outside the subtree of \<open>p\<close> (siblings, ancestors and their other descendants)
  unchanged, and it leaves no cell below \<open>p\<close>, so that the descendants start from their
  initial, collapsed state. Toggling twice restores the displayed content when the node
  was collapsed before the first toggle, or when no descendant had a changed collapse
  state, that is, when every descendant read as collapsed, its initial state.
\<close>
theorem C8_toggle_local:
  fixes v :: "'n json"
  shows
    "isCollapsed (subtree_cells p (toggleCollapse p d st)) (d + length p) =
       (\<not> isCollapsed (subtree_cells p st) (d + length p)) \<and>
     isCollapsed (subtree_cells p (toggleCollapse p d (toggleCollapse p d st))) (d + length p) =
       isCollapsed (subtree_cells p st) (d + length p) \<and>
     (\<forall>q. \<not> prefix p q \<longrightarrow> toggleCollapse p d st q = st q) \<and>
     (\<forall>q. strict_prefix p q \<longrightarrow> toggleCollapse p d st q = None) \<and>
     (isCollapsed (subtree_cells p st) (d + length p) \<or>
      (\<forall>q. strict_prefix p q \<longrightarrow> isCollapsed (subtree_cells q st) (d + length q)) \<longrightarrow>
        JsonNode v d (toggleCollapse p d (toggleCollapse p d st)) = JsonNode v d st)"
proof (intro conjI allI impI)
  show "isCollapsed (subtree_cells p (toggleCollapse p d st)) (d + length p) =
       (\<not> isCollapsed (subtree_cells p st) (d + length p))"
    by (rule toggle_own_flag)
  show "isCollapsed (subtree_cells p (toggleCollapse p d (toggleCollapse p d st))) (d + length p) =
       isCollapsed (subtree_cells p st) (d + length p)"
    by (simp only: toggle_own_flag not_not)
  show "toggleCollapse p d st q = st q" if "\<not> prefix p q" for q
    using that by (rule toggle_outside)
  show "toggleCollapse p d st q = None" if "strict_prefix p q" for q
    using that by (rule toggle_below)
  show "JsonNode v d (toggleCollapse p d (toggleCollapse p d st)) = JsonNode v d st"
    if "isCollapsed (subtree_cells p st) (d + length p) \<or>
      (\<forall>q. strict_prefix p q \<longrightarrow> isCollapsed (subtree_cells q st) (d + length q))"
  proof (rule double_toggle_display_initial)
    from that
    show "isCollapsed (subtree_cells p st) (d + length p) \<or>
           (\<forall>q. q \<noteq> [] \<longrightarrow>
              isCollapsed (subtree_cells q (subtree_cells p st)) (d + length p + length q))"
      using descendants_initial [of p st d] by blast
  qed
qed

theorem C8_toggle_local_witness:
  "\<not> prefix [0] [1 :: nat] \<and>
   toggleCollapse [0] 0 initial_cells [1] = initial_cells [1] \<and>
   strict_prefix [0] [0, 0 :: nat] \<and>
   toggleCollapse [0] 0 initial_cells [0, 0] = None \<and>
   isCollapsed (subtree_cells [0] initial_cells) (0 + length [0 :: nat]) \<and>
   JsonNode (JArray [JArray [JNull :: int json]]) 0
       (toggleCollapse [0] 0 (toggleCollapse [0] 0 initial_cells)) =
     JsonNode (JArray [JArray [JNull :: int json]]) 0 initial_cells \<and>
   toggleCollapse [0] 0 (toggleCollapse [0] 0 initial_cells) [0] = Some True \<and>
   \<not> isCollapsed (subtree_cells [] (toggleCollapse [0] 0 (toggleCollapse [0] 0 initial_cells)))
       (0 + length ([] :: nat list)) \<and>
   JsonNode (JArray [JArray [JNull :: int json]]) 0
       (toggleCollapse [] 0 (toggleCollapse [] 0
          (toggleCollapse [0] 0 (toggleCollapse [0] 0 initial_cells)))) =
     JsonNode (JArray [JArray [JNull :: int json]]) 0
       (toggleCollapse [0] 0 (toggleCollapse [0] 0 initial_cells))"
proof -
  let ?doc = "JArray [JArray [JNull :: int json]]"
  let ?st1 = "toggleCollapse [0] 0 (toggleCollapse [0] 0 initial_cells)"
  have 1: "\<not> prefix [0] [1 :: nat]" by simp
  have 2: "strict_prefix [0] [0, 0 :: nat]" by simp
  have 3: "isCollapsed (subtree_cells [0] initial_cells) (0 + length [0 :: nat])"
    by (simp add: isCollapsed_def subtree_cells_def initial_cells_def)
  from C8_toggle_local [where p = "[0]" and d = 0 and st = initial_cells and v = ?doc] 1 2 3
  have first: "toggleCollapse [0] 0 initial_cells [1] = initial_cells [1] \<and>
     toggleCollapse [0] 0 initial_cells [0, 0] = None \<and>
     JsonNode ?doc 0 (toggleCollapse [0] 0 (toggleCollapse [0] 0 initial_cells)) =
       JsonNode ?doc 0 initial_cells"
    by blast
  have cell: "?st1 [0] = Some True"
    by (simp add: isCollapsed_def child_cells_def initial_cells_def)
  have root: "\<not> isCollapsed (subtree_cells [] ?st1) (0 + length ([] :: nat list))"
    by (simp add: isCollapsed_def subtree_cells_def initial_cells_def)
  have below: "\<forall>q. strict_prefix [] q \<longrightarrow> isCollapsed (subtree_cells q ?st1) (0 + length q)"
  proof (intro allI impI)
    fix q :: "nat list"
    assume "strict_prefix [] q"
    then obtain j q' where q: "q = j # q'" by (cases q) auto
    show "isCollapsed (subtree_cells q ?st1) (0 + length q)"
      unfolding q
      by (cases q')
         (simp_all add: isCollapsed_def subtree_cells_def child_cells_def initial_cells_def)
  qed
  from C8_toggle_local [where p = "[]" and d = 0 and st = ?st1 and v = ?doc] below
  have second: "JsonNode ?doc 0 (toggleCollapse [] 0 (toggleCollapse [] 0 ?st1)) =
      JsonNode ?doc 0 ?st1"
    by blast
  from 1 2 3 first cell root second show ?thesis by blast
qed

end
